theory Spec2Isabelle
  imports Main
begin

section \<open>Data model\<close>

text \<open>
  The \<open>Scrobble\<close> struct, with the fields the sinks read and write
  (\<open>sink_lastfm.go\<close> builds it from a struct literal). \<open>Duration\<close> is Go's
  \<open>time.Duration\<close>, a count of nanoseconds; \<open>Timestamp\<close> is a \<open>time.Time\<close>, taken as
  the instant it denotes, in nanoseconds since the Unix epoch (\<open>Before\<close> and \<open>After\<close>
  compare instants).
\<close>

record Scrobble =
  Artists :: "string list"
  Track :: string
  Album :: string
  Duration :: int
  Timestamp :: int

text \<open>Errors are values. \<open>os.IsNotExist\<close> recognises the first one.\<close>

datatype error =
  ErrNotExist | ErrPermission | ErrIO | ErrCSVParse | ErrTooLong | ErrDecode | ErrRemote | ErrRegexp

definition os_IsNotExist :: "error \<Rightarrow> bool" where
  "os_IsNotExist err = (err = ErrNotExist)"

section \<open>The file system the CSV sink works on\<close>

text \<open>
  A file system maps a file name to the bytes of the file. The three other fields say
  which operating-system calls fail: opening a file, creating (truncating) it, and
  writing to it; a failed write reports how many bytes reached the file before.
\<close>

record world =
  files :: "string \<Rightarrow> string option"
  open_fault :: "string \<Rightarrow> error option"
  create_fault :: "string \<Rightarrow> error option"
  write_fault :: "string \<Rightarrow> (error \<times> nat) option"

definition os_Open :: "world \<Rightarrow> string \<Rightarrow> error + string" where
  "os_Open w name =
     (case open_fault w name of
        Some err \<Rightarrow> Inl err
      | None \<Rightarrow> (case files w name of None \<Rightarrow> Inl ErrNotExist | Some content \<Rightarrow> Inr content))"

definition os_Create :: "world \<Rightarrow> string \<Rightarrow> error + world" where
  "os_Create w name =
     (case create_fault w name of
        Some err \<Rightarrow> Inl err
      | None \<Rightarrow> Inr (w\<lparr>files := (files w)(name \<mapsto> [])\<rparr>))"

definition file_Write :: "world \<Rightarrow> string \<Rightarrow> string \<Rightarrow> error option \<times> world" where
  "file_Write w name bytes =
     (case write_fault w name of
        Some (err, n) \<Rightarrow> (Some err, w\<lparr>files := (files w)(name \<mapsto> take n bytes)\<rparr>)
      | None \<Rightarrow> (None, w\<lparr>files := (files w)(name \<mapsto> bytes)\<rparr>))"

text \<open>
  What the sink calls and does not define itself: the CSV reader and writer of Go's
  \<open>encoding/csv\<close>, the line scanner of \<open>bufio\<close>, and the two helpers
  \<open>Scrobble.ToStringSlice\<close> and \<open>ScrobbleFromCSV\<close>, which live in another file of the
  repository. Each is a parameter of the model.
\<close>

record csv_deps =
  csv_ReadAll :: "string \<Rightarrow> error + string list list"
  csv_WriteAll :: "string list list \<Rightarrow> string"
  scan_lines :: "string \<Rightarrow> error + string list"
  ToStringSlice :: "Scrobble \<Rightarrow> string list"
  ScrobbleFromCSV :: "string \<Rightarrow> error + Scrobble"

section \<open>The CSV sink\<close>

record CSVSink =
  Filename :: string

text \<open>\<open>CSVSink.NowPlaying\<close>: returns \<open>nil\<close> and touches nothing.\<close>

definition CSVSink_NowPlaying :: "CSVSink \<Rightarrow> Scrobble \<Rightarrow> world \<Rightarrow> error option \<times> world" where
  "CSVSink_NowPlaying s scrobble w = (None, w)"

text \<open>
  \<open>CSVSink.Scrobble\<close>. The rows read from the file (none when the file does not exist),
  then the new row, go to a file created anew under the same name.
\<close>

definition write_back :: "csv_deps \<Rightarrow> CSVSink \<Rightarrow> string list list \<Rightarrow> world \<Rightarrow> error option \<times> world" where
  "write_back d s scrobbles w =
     (case os_Create w (Filename s) of
        Inl err \<Rightarrow> (Some err, w)
      | Inr w' \<Rightarrow> file_Write w' (Filename s) (csv_WriteAll d scrobbles))"

definition CSVSink_Scrobble :: "csv_deps \<Rightarrow> CSVSink \<Rightarrow> Scrobble \<Rightarrow> world \<Rightarrow> error option \<times> world" where
  "CSVSink_Scrobble d s scrobble w =
     (case os_Open w (Filename s) of
        Inr content \<Rightarrow>
          (case csv_ReadAll d content of
             Inl err \<Rightarrow> (Some err, w)
           | Inr scrobbles \<Rightarrow> write_back d s (scrobbles @ [ToStringSlice d scrobble]) w)
      | Inl err \<Rightarrow>
          if \<not> os_IsNotExist err then (Some err, w)
          else write_back d s ([] @ [ToStringSlice d scrobble]) w)"

text \<open>
  \<open>CSVSink.GetScrobbles\<close>. The loop over the reversed lines, with the slice built so
  far: a line that does not decode ends the call with the error; a record before
  \<open>from\<close> is passed over; a record after \<open>to\<close> ends the loop, and so does a record
  that would exceed a positive limit.
\<close>

fun GetScrobbles_loop ::
  "(string \<Rightarrow> error + Scrobble) \<Rightarrow> int \<Rightarrow> int \<Rightarrow> int \<Rightarrow> string list \<Rightarrow> Scrobble list
     \<Rightarrow> error + Scrobble list" where
  "GetScrobbles_loop dec limit tfrom tto [] scrobbles = Inr scrobbles"
| "GetScrobbles_loop dec limit tfrom tto (line # lines) scrobbles =
     (case dec line of
        Inl err \<Rightarrow> Inl err
      | Inr scrobble \<Rightarrow>
          if Timestamp scrobble < tfrom then GetScrobbles_loop dec limit tfrom tto lines scrobbles
          else if tto < Timestamp scrobble then Inr scrobbles
          else if limit \<le> 0 \<or> int (length scrobbles) < limit
            then GetScrobbles_loop dec limit tfrom tto lines (scrobbles @ [scrobble])
          else Inr scrobbles)"

definition CSVSink_GetScrobbles ::
  "csv_deps \<Rightarrow> CSVSink \<Rightarrow> int \<Rightarrow> int \<Rightarrow> int \<Rightarrow> world \<Rightarrow> error + Scrobble list" where
  "CSVSink_GetScrobbles d s limit tfrom tto w =
     (case os_Open w (Filename s) of
        Inl err \<Rightarrow> Inl err
      | Inr content \<Rightarrow>
          (case scan_lines d content of
             Inl err \<Rightarrow> Inl err
           | Inr lines \<Rightarrow> GetScrobbles_loop (ScrobbleFromCSV d) limit tfrom tto (rev lines) []))"

text \<open>
  The lines \<open>bufio.Scanner\<close> yields for bytes it reads without error, none of them
  longer than its buffer: the default split function \<open>ScanLines\<close> ends a line at each
  newline, drops one trailing carriage return, and yields a last line that has no
  newline when it is not empty. The examples below run the sink with it.
\<close>

definition dropCR :: "string \<Rightarrow> string" where
  "dropCR data = (if data \<noteq> [] \<and> last data = CHR 0x0D then butlast data else data)"

fun ScanLines :: "string \<Rightarrow> string \<Rightarrow> string list" where
  "ScanLines cur [] = (if cur = [] then [] else [dropCR (rev cur)])"
| "ScanLines cur (c # cs) =
     (if c = CHR 0x0A then dropCR (rev cur) # ScanLines [] cs else ScanLines (c # cur) cs)"

text \<open>
  The number of lines that decode to a record not before \<open>from\<close>: the records a scan
  counts against the limit, as long as none of them is after \<open>to\<close>.
\<close>

definition in_window_count :: "(string \<Rightarrow> error + Scrobble) \<Rightarrow> int \<Rightarrow> string list \<Rightarrow> nat" where
  "in_window_count dec tfrom ls =
     length (filter (\<lambda>l. case dec l of Inl err \<Rightarrow> False | Inr r \<Rightarrow> tfrom \<le> Timestamp r) ls)"

section \<open>The last.fm sink\<close>

text \<open>
  \<open>lastfm.P\<close> is a map from parameter names to values; the sink stores strings and
  integers in it. The client answers each call; \<open>sent\<close> keeps the calls submitted so
  far, each with the name of the client's method.
\<close>

datatype pvalue = PString string | PInt int

type_synonym lastfm_P = "string \<Rightarrow> pvalue option"

record lfm_track =
  Artist_Name :: string
  Name :: string
  Album_Name :: string
  Date_UTS :: int

record RecentTracks =
  TotalPages :: int
  Tracks :: "lfm_track list"

record lastfm_client =
  sent :: "(string \<times> lastfm_P) list"
  TrackUpdateNowPlaying :: "lastfm_P \<Rightarrow> error option"
  TrackScrobble :: "lastfm_P \<Rightarrow> error option"
  UserGetRecentTracks :: "lastfm_P \<Rightarrow> error + RecentTracks"

record LastFmSink =
  SessionKey :: string
  Username :: string


text \<open>\<open>t.Unix()\<close>, the seconds since the epoch, and \<open>time.Unix(sec, 0)\<close>.\<close>

definition Time_Unix :: "int \<Rightarrow> int" where
  "Time_Unix t = t div 1000000000"

definition time_Unix :: "int \<Rightarrow> int" where
  "time_Unix sec = sec * 1000000000"



text \<open>
  \<open>strings.Split(name, ", ")\<close>: the pieces of the name between the occurrences of a
  comma followed by a space, found from the left; \<open>cur\<close> holds the piece being read,
  reversed.
\<close>

fun strings_Split :: "string \<Rightarrow> string \<Rightarrow> string list" where
  "strings_Split cur [] = [rev cur]"
| "strings_Split cur [c] = [rev (c # cur)]"
| "strings_Split cur (c # c' # cs) =
     (if c = CHR '','' \<and> c' = CHR '' '' then rev cur # strings_Split [] cs
      else strings_Split (c # cur) (c' # cs))"

definition track_to_Scrobble :: "lfm_track \<Rightarrow> Scrobble" where
  "track_to_Scrobble track =
     \<lparr>Artists = strings_Split [] (Artist_Name track), Track = Name track,
      Album = Album_Name track, Duration = 0, Timestamp = time_Unix (Date_UTS track)\<rparr>"

text \<open>
  The inner loop of \<open>LastFmSink.GetScrobbles\<close> over the tracks of one page; the flag
  says that the limit was reached (\<open>break outer\<close>).
\<close>

fun add_tracks :: "int \<Rightarrow> lfm_track list \<Rightarrow> Scrobble list \<Rightarrow> Scrobble list \<times> bool" where
  "add_tracks limit [] scrobbles = (scrobbles, False)"
| "add_tracks limit (track # tracks) scrobbles =
     (if limit \<le> 0 \<or> int (length scrobbles) < limit
      then add_tracks limit tracks (scrobbles @ [track_to_Scrobble track])
      else (scrobbles, True))"

definition recent_params :: "LastFmSink \<Rightarrow> int \<Rightarrow> int \<Rightarrow> int \<Rightarrow> int \<Rightarrow> lastfm_P" where
  "recent_params s limit tfrom tto currentPage =
     [''limit'' \<mapsto> PInt (min limit 200), ''user'' \<mapsto> PString (Username s),
      ''page'' \<mapsto> PInt currentPage, ''from'' \<mapsto> PInt (Time_Unix tfrom),
      ''extended'' \<mapsto> PInt 1, ''to'' \<mapsto> PInt (Time_Unix tto)]"

text \<open>
  The outer loop, one request per round. It may run forever, so it is a partial
  function: \<open>None\<close> is the call that never returns.
\<close>

partial_function (option) GetScrobbles_pages ::
  "lastfm_client \<Rightarrow> LastFmSink \<Rightarrow> int \<Rightarrow> int \<Rightarrow> int \<Rightarrow> int \<Rightarrow> int
     \<Rightarrow> Scrobble list \<Rightarrow> (error + Scrobble list) option" where
  "GetScrobbles_pages c s limit tfrom tto currentPage totalPages scrobbles =
     (case UserGetRecentTracks c (recent_params s limit tfrom tto currentPage) of
        Inl err \<Rightarrow> Some (Inl err)
      | Inr page \<Rightarrow>
          (let totalPages' = (if TotalPages page \<noteq> totalPages then TotalPages page else totalPages);
               (scrobbles', stop) = add_tracks limit (Tracks page) scrobbles
           in if stop then Some (Inr scrobbles')
              else if totalPages' \<le> currentPage then Some (Inr scrobbles')
              else GetScrobbles_pages c s limit tfrom tto (currentPage + 1) totalPages' scrobbles'))"

definition LastFmSink_GetScrobbles ::
  "lastfm_client \<Rightarrow> LastFmSink \<Rightarrow> int \<Rightarrow> int \<Rightarrow> int \<Rightarrow> (error + Scrobble list) option" where
  "LastFmSink_GetScrobbles c s limit tfrom tto = GetScrobbles_pages c s limit tfrom tto 1 1 []"

declare GetScrobbles_pages.simps [code]


text \<open>
  A remote service that always reports one page more than the page asked for, and
  sends no tracks.
\<close>

definition endless_service :: "lastfm_P \<Rightarrow> error + RecentTracks" where
  "endless_service p =
     (case p ''page'' of
        Some (PInt n) \<Rightarrow> Inr \<lparr>TotalPages = n + 1, Tracks = []\<rparr>
      | _ \<Rightarrow> Inl ErrRemote)"

section \<open>Configuration: the regex rules\<close>

text \<open>
  \<open>RegexReplace\<close> and \<open>ParsedRegexReplace\<close> have the same field names in the source;
  here the fields of the first carry the prefix \<open>rr\<close>, those of the second \<open>prr\<close>, and
  the \<open>Config\<close> record keeps the fields that are not sources or sinks. A compiled
  pattern is a value of the type \<open>'rx\<close>, and \<open>regexp.Compile\<close> is the parameter
  \<open>compile\<close>.
\<close>

record RegexReplace =
  rr_Match :: string
  rr_Replace :: string
  rr_Artist :: bool
  rr_Track :: bool
  rr_Album :: bool

record 'rx ParsedRegexReplace =
  prr_Match :: 'rx
  prr_Replace :: string
  prr_Artist :: bool
  prr_Track :: bool
  prr_Album :: bool

record Config =
  PollRate :: int
  MinPlaybackDuration :: int
  MinPlaybackPercent :: int
  NotifyOnScrobble :: bool
  NotifyOnError :: bool
  Blacklist :: "string list"
  Regexes :: "RegexReplace list"

fun ParseRegexes_loop ::
  "(string \<Rightarrow> error + 'rx) \<Rightarrow> RegexReplace list \<Rightarrow> 'rx ParsedRegexReplace list
     \<Rightarrow> 'rx ParsedRegexReplace list" where
  "ParseRegexes_loop compile [] parsed = parsed"
| "ParseRegexes_loop compile (r # rs) parsed =
     (case compile (rr_Match r) of
        Inl err \<Rightarrow> ParseRegexes_loop compile rs parsed
      | Inr match \<Rightarrow>
          ParseRegexes_loop compile rs
            (parsed @ [\<lparr>prr_Match = match, prr_Replace = rr_Replace r, prr_Artist = rr_Artist r,
                        prr_Track = rr_Track r, prr_Album = rr_Album r\<rparr>]))"

definition ParseRegexes :: "(string \<Rightarrow> error + 'rx) \<Rightarrow> Config \<Rightarrow> 'rx ParsedRegexReplace list" where
  "ParseRegexes compile c = ParseRegexes_loop compile (Regexes c) []"

text \<open>
  The rules as the specification words them: the rules whose pattern compiles, in the
  configured order, each with its compiled pattern, its replacement and its flags.
\<close>

definition compiles :: "(string \<Rightarrow> error + 'rx) \<Rightarrow> RegexReplace \<Rightarrow> bool" where
  "compiles compile r = (case compile (rr_Match r) of Inl err \<Rightarrow> False | Inr match \<Rightarrow> True)"

definition parsed_rule :: "(string \<Rightarrow> error + 'rx) \<Rightarrow> RegexReplace \<Rightarrow> 'rx ParsedRegexReplace" where
  "parsed_rule compile r =
     \<lparr>prr_Match = projr (compile (rr_Match r)), prr_Replace = rr_Replace r,
      prr_Artist = rr_Artist r, prr_Track = rr_Track r, prr_Album = rr_Album r\<rparr>"

definition compiled_rules :: "(string \<Rightarrow> error + 'rx) \<Rightarrow> Config \<Rightarrow> 'rx ParsedRegexReplace list" where
  "compiled_rules compile c = map (parsed_rule compile) (filter (compiles compile) (Regexes c))"

section \<open>The playback tracker\<close>

text \<open>
  Modelled from the spec: the playback tracker, the state machine of section 4.2 of the
  specification with the session of section 3, is not among the source files; the
  sinks and the configuration are. Times are in seconds. An identity is the triple of
  artists, track and album. A tick carries what the source reports (nothing, or a
  snapshot), the wall-clock time and the time elapsed since the previous tick; a
  negative elapsed time is clamped to zero. The transformer of section 4.1 is the
  field \<open>Transform\<close> of the policy: it drops an identity or rewrites it.
\<close>

type_synonym identity = "string list \<times> string \<times> string"

record snapshot =
  snap_identity :: identity
  snap_total :: "int option"
  snap_position :: int
  snap_playing :: bool

record tick =
  reported :: "snapshot option"
  now :: int
  elapsed :: int

record PlaybackSession =
  sess_identity :: identity
  candidate :: identity
  accumulated :: int
  play_start :: int
  now_playing_emitted :: bool
  scrobbled :: bool

record Policy =
  min_playback_duration :: int
  min_playback_percent :: int
  short_track_floor :: int
  Transform :: "identity \<Rightarrow> identity option"

datatype event = EvNowPlaying identity | EvScrobble identity int int

text \<open>
  Modelled from the spec: step 3 of the transition logic. The threshold is the smaller
  of the minimum duration and the percentage of the total when the total is known and
  above the short-track floor, and the minimum duration otherwise.
\<close>

definition threshold :: "Policy \<Rightarrow> int option \<Rightarrow> int" where
  "threshold pol track_total =
     (case track_total of
        None \<Rightarrow> min_playback_duration pol
      | Some t \<Rightarrow>
          if short_track_floor pol < t
          then min (min_playback_duration pol) (min_playback_percent pol * t div 100)
          else min_playback_duration pol)"

text \<open>
  Modelled from the spec: step 1. With no session, a playing snapshot that passes the
  transformer opens a session with no play time and announces it.
\<close>

definition begin_session :: "Policy \<Rightarrow> tick \<Rightarrow> event list \<times> PlaybackSession option" where
  "begin_session pol tk =
     (case reported tk of
        None \<Rightarrow> ([], None)
      | Some snap \<Rightarrow>
          if snap_playing snap then
            (case Transform pol (snap_identity snap) of
               None \<Rightarrow> ([], None)
             | Some cand \<Rightarrow>
                 ([EvNowPlaying cand],
                  Some \<lparr>sess_identity = snap_identity snap, candidate = cand, accumulated = 0,
                        play_start = now tk, now_playing_emitted = True, scrobbled = False\<rparr>))
          else ([], None))"

text \<open>
  Modelled from the spec: step 2. Play time advances while the source plays and
  freezes while it is paused.
\<close>

definition advance :: "PlaybackSession \<Rightarrow> snapshot \<Rightarrow> tick \<Rightarrow> PlaybackSession" where
  "advance sess snap tk =
     (if snap_playing snap then sess\<lparr>accumulated := accumulated sess + max 0 (elapsed tk)\<rparr> else sess)"

text \<open>
  Modelled from the spec: one tick. A snapshot of the session's identity advances the
  session and, while it is not scrobbled, checks the threshold (steps 2 and 3);
  nothing playing, or another identity, discards the session and starts over with the
  snapshot (step 4).
\<close>

definition tracker_tick ::
  "Policy \<Rightarrow> PlaybackSession option \<Rightarrow> tick \<Rightarrow> event list \<times> PlaybackSession option" where
  "tracker_tick pol st tk =
     (case st of
        None \<Rightarrow> begin_session pol tk
      | Some sess \<Rightarrow>
          (case reported tk of
             None \<Rightarrow> ([], None)
           | Some snap \<Rightarrow>
               if snap_identity snap = sess_identity sess then
                 (let sess' = advance sess snap tk in
                  if \<not> scrobbled sess' \<and> threshold pol (snap_total snap) \<le> accumulated sess'
                  then ([EvScrobble (candidate sess') (play_start sess') (accumulated sess')],
                        Some (sess'\<lparr>scrobbled := True\<rparr>))
                  else ([], Some sess'))
               else begin_session pol tk))"

text \<open>Modelled from the spec: the ticks of one source in turn, with the events emitted.\<close>

fun tracker_run ::
  "Policy \<Rightarrow> PlaybackSession option \<Rightarrow> tick list \<Rightarrow> event list \<times> PlaybackSession option" where
  "tracker_run pol st [] = ([], st)"
| "tracker_run pol st (tk # tks) =
     (let (evs, st') = tracker_tick pol st tk;
          (evs', st'') = tracker_run pol st' tks
      in (evs @ evs', st''))"

fun is_scrobble :: "event \<Rightarrow> bool" where
  "is_scrobble (EvScrobble cand start played) = True"
| "is_scrobble (EvNowPlaying cand) = False"

definition scrobble_count :: "event list \<Rightarrow> nat" where
  "scrobble_count evs = length (filter is_scrobble evs)"

text \<open>
  Modelled from the spec: the ticks of one session report the identity of the session,
  playing or paused.
\<close>

definition same_session :: "PlaybackSession \<Rightarrow> tick list \<Rightarrow> bool" where
  "same_session sess tks =
     list_all (\<lambda>tk. map_option snap_identity (reported tk) = Some (sess_identity sess)) tks"

section \<open>Example inputs\<close>

text \<open>
  A file system where no call fails, and what \<open>csv.Writer\<close> emits for a row none of
  whose fields needs quotes: the fields joined by commas, then a newline.
\<close>

abbreviation healthy :: "(string \<Rightarrow> string option) \<Rightarrow> world" where
  "healthy fs \<equiv> \<lparr>files = fs, open_fault = (\<lambda>name. None), create_fault = (\<lambda>name. None),
     write_fault = (\<lambda>name. None)\<rparr>"

definition plain_row :: "string list \<Rightarrow> string" where
  "plain_row row =
     (case row of [] \<Rightarrow> [] | f # fs \<Rightarrow> f @ concat (map (\<lambda>g. CHR '','' # g) fs)) @ [CHR 0x0A]"

abbreviation played_at :: "int \<Rightarrow> Scrobble" where
  "played_at t \<equiv> \<lparr>Artists = [''Autechre''], Track = ''Bike'', Album = ''Incunabula'',
     Duration = 240000000000, Timestamp = t\<rparr>"

text \<open>
  An instance of the parameters of the CSV sink for a run on one file: the CSV reader
  gives \<open>read\<close> for the file, the writer emits plain rows, the scanner splits lines, the
  row of the scrobble written is \<open>row\<close>, and a line decodes as the table says.
\<close>

abbreviation example_deps ::
  "(error + string list list) \<Rightarrow> string list \<Rightarrow> (string \<times> Scrobble) list \<Rightarrow> csv_deps" where
  "example_deps read row table \<equiv>
     \<lparr>csv_ReadAll = (\<lambda>content. read),
      csv_WriteAll = (\<lambda>rows. concat (map plain_row rows)),
      scan_lines = (\<lambda>content. Inr (ScanLines [] content)),
      ToStringSlice = (\<lambda>x. row),
      ScrobbleFromCSV = (\<lambda>line. case map_of table line of None \<Rightarrow> Inl ErrDecode | Some r \<Rightarrow> Inr r)\<rparr>"

abbreviation history :: CSVSink where
  "history \<equiv> \<lparr>Filename = ''scrobbles.csv''\<rparr>"






text \<open>
  The example of the specification: a minimum of 240 seconds, 50 percent, and a track
  of 400 seconds, reported every 100 seconds.
\<close>

abbreviation imagine :: identity where
  "imagine \<equiv> ([''John Lennon''], ''Imagine'', ''Imagine'')"

abbreviation playing_tick :: "int \<Rightarrow> tick" where
  "playing_tick t \<equiv>
     \<lparr>reported = Some \<lparr>snap_identity = imagine, snap_total = Some 400, snap_position = t,
                       snap_playing = True\<rparr>, now = 1000 + t, elapsed = 100\<rparr>"

abbreviation spec_policy :: Policy where
  "spec_policy \<equiv> \<lparr>min_playback_duration = 240, min_playback_percent = 50, short_track_floor = 30,
     Transform = Some\<rparr>"

abbreviation imagine_session :: "int \<Rightarrow> PlaybackSession" where
  "imagine_session played \<equiv>
     \<lparr>sess_identity = imagine, candidate = imagine, accumulated = played, play_start = 1000,
      now_playing_emitted = True, scrobbled = False\<rparr>"

section \<open>Now playing is not history\<close>

text \<open>
  C9. For every scrobble, \<open>CSVSink.NowPlaying\<close> returns success and leaves the file
  system, the history file with it, as it was.
\<close>

theorem CSVSink_NowPlaying_frame:
  "fst (CSVSink_NowPlaying s scrobble w) = None \<and>
   snd (CSVSink_NowPlaying s scrobble w) = w \<and>
   files (snd (CSVSink_NowPlaying s scrobble w)) (Filename s) = files w (Filename s)"
  by (simp add: CSVSink_NowPlaying_def)

section \<open>The CSV sink: writing\<close>

lemma CSVSink_Scrobble_ok:
  assumes "open_fault w (Filename s) = None"
    and "case files w (Filename s) of None \<Rightarrow> rows = []
         | Some content \<Rightarrow> csv_ReadAll d content = Inr rows"
    and "create_fault w (Filename s) = None"
    and "write_fault w (Filename s) = None"
  shows "CSVSink_Scrobble d s scrobble w =
     (None, w\<lparr>files := (files w)(Filename s \<mapsto> csv_WriteAll d (rows @ [ToStringSlice d scrobble]))\<rparr>)"
  using assms
  by (auto simp: CSVSink_Scrobble_def os_Open_def os_IsNotExist_def write_back_def os_Create_def
      file_Write_def split: option.splits)

text \<open>
  C3, as amended. \<open>CSVSink.Scrobble\<close> reads and parses all existing lines (a missing file
  counts as no lines), appends the new record and writes the whole file anew rather
  than appending in place: when the open, the parse, the create and the write succeed,
  the file holds exactly the prior records in their order followed by the new record,
  and no other file changes.
\<close>

theorem CSVSink_Scrobble_rewrites_whole_file:
  assumes "open_fault w (Filename s) = None"
    and "case files w (Filename s) of None \<Rightarrow> rows = []
         | Some content \<Rightarrow> csv_ReadAll d content = Inr rows"
    and "create_fault w (Filename s) = None"
    and "write_fault w (Filename s) = None"
  shows "fst (CSVSink_Scrobble d s scrobble w) = None \<and>
         files (snd (CSVSink_Scrobble d s scrobble w)) (Filename s) =
           Some (csv_WriteAll d (rows @ [ToStringSlice d scrobble])) \<and>
         (\<forall>other. other \<noteq> Filename s \<longrightarrow>
            files (snd (CSVSink_Scrobble d s scrobble w)) other = files w other)"
  unfolding CSVSink_Scrobble_ok[OF assms] by simp

theorem CSVSink_Scrobble_rewrites_whole_file_witness:
  "fst (CSVSink_Scrobble
          (example_deps (Inr [[''Autechre'', ''Bike'', ''Incunabula'', ''240'', ''5'']])
             [''Autechre'', ''Bike'', ''Incunabula'', ''240'', ''10''] [])
          history (played_at 10)
          (healthy [''scrobbles.csv'' \<mapsto> ''Autechre,Bike,Incunabula,240,5\<newline>''])) = None \<and>
   files (snd (CSVSink_Scrobble
          (example_deps (Inr [[''Autechre'', ''Bike'', ''Incunabula'', ''240'', ''5'']])
             [''Autechre'', ''Bike'', ''Incunabula'', ''240'', ''10''] [])
          history (played_at 10)
          (healthy [''scrobbles.csv'' \<mapsto> ''Autechre,Bike,Incunabula,240,5\<newline>''])))
     ''scrobbles.csv''
   = Some ''Autechre,Bike,Incunabula,240,5\<newline>Autechre,Bike,Incunabula,240,10\<newline>''"
  using CSVSink_Scrobble_rewrites_whole_file
    [where w = "healthy [''scrobbles.csv'' \<mapsto> ''Autechre,Bike,Incunabula,240,5\<newline>'']"
       and s = history
       and rows = "[[''Autechre'', ''Bike'', ''Incunabula'', ''240'', ''5'']]"
       and d = "example_deps (Inr [[''Autechre'', ''Bike'', ''Incunabula'', ''240'', ''5'']])
             [''Autechre'', ''Bike'', ''Incunabula'', ''240'', ''10''] []"
       and scrobble = "played_at 10"]
  by (simp add: plain_row_def)

text \<open>
  The claim as stated fails in two ways. The rewrite is not atomic: the file is
  truncated before the rows are written, so a write that fails leaves neither the
  prior records nor the new one (here the write fails at once, the call returns the
  error and the file is empty). And not every prior state of the file is rewritten: a
  file that does not parse stays as it is, without the new record.
\<close>

theorem CSVSink_Scrobble_without_append:
  "fst (CSVSink_Scrobble
          (example_deps (Inr [[''Autechre'', ''Bike'', ''Incunabula'', ''240'', ''5'']])
             [''Autechre'', ''Bike'', ''Incunabula'', ''240'', ''10''] [])
          history (played_at 10)
          \<lparr>files = [''scrobbles.csv'' \<mapsto> ''Autechre,Bike,Incunabula,240,5\<newline>''],
           open_fault = (\<lambda>name. None), create_fault = (\<lambda>name. None),
           write_fault = (\<lambda>name. Some (ErrIO, 0))\<rparr>) = Some ErrIO \<and>
   files (snd (CSVSink_Scrobble
          (example_deps (Inr [[''Autechre'', ''Bike'', ''Incunabula'', ''240'', ''5'']])
             [''Autechre'', ''Bike'', ''Incunabula'', ''240'', ''10''] [])
          history (played_at 10)
          \<lparr>files = [''scrobbles.csv'' \<mapsto> ''Autechre,Bike,Incunabula,240,5\<newline>''],
           open_fault = (\<lambda>name. None), create_fault = (\<lambda>name. None),
           write_fault = (\<lambda>name. Some (ErrIO, 0))\<rparr>)) ''scrobbles.csv'' = Some [] \<and>
   fst (CSVSink_Scrobble
          (example_deps (Inl ErrCSVParse) [''Autechre'', ''Bike'', ''Incunabula'', ''240'', ''10''] [])
          history (played_at 10)
          (healthy [''scrobbles.csv'' \<mapsto> ''Autechre,Bi\"ke\<newline>''])) = Some ErrCSVParse \<and>
   files (snd (CSVSink_Scrobble
          (example_deps (Inl ErrCSVParse) [''Autechre'', ''Bike'', ''Incunabula'', ''240'', ''10''] [])
          history (played_at 10)
          (healthy [''scrobbles.csv'' \<mapsto> ''Autechre,Bi\"ke\<newline>'']))) ''scrobbles.csv''
     = Some ''Autechre,Bi\"ke\<newline>''"
  by (simp add: CSVSink_Scrobble_def os_Open_def write_back_def os_Create_def file_Write_def)

text \<open>
  C10. When the history file exists and its contents fail to parse as CSV, or when
  opening it fails for a reason other than the file not existing, \<open>CSVSink.Scrobble\<close>
  returns that error before it creates or truncates anything: the file system is the
  one it started from.
\<close>

theorem CSVSink_Scrobble_error_leaves_file:
  assumes "(open_fault w (Filename s) = Some err \<and> err \<noteq> ErrNotExist) \<or>
           (open_fault w (Filename s) = None \<and> files w (Filename s) = Some content \<and>
            csv_ReadAll d content = Inl err)"
  shows "CSVSink_Scrobble d s scrobble w = (Some err, w)"
  using assms
  by (auto simp: CSVSink_Scrobble_def os_Open_def os_IsNotExist_def)

theorem CSVSink_Scrobble_error_leaves_file_witness:
  "CSVSink_Scrobble
     (example_deps (Inl ErrCSVParse) [''Autechre'', ''Bike'', ''Incunabula'', ''240'', ''10''] [])
     history (played_at 10)
     (healthy [''scrobbles.csv'' \<mapsto> ''Autechre,Bi\"ke\<newline>''])
   = (Some ErrCSVParse, healthy [''scrobbles.csv'' \<mapsto> ''Autechre,Bi\"ke\<newline>'']) \<and>
   CSVSink_Scrobble
     (example_deps (Inr [[''Autechre'', ''Bike'', ''Incunabula'', ''240'', ''5'']])
        [''Autechre'', ''Bike'', ''Incunabula'', ''240'', ''10''] [])
     history (played_at 10)
     \<lparr>files = [''scrobbles.csv'' \<mapsto> ''Autechre,Bike,Incunabula,240,5\<newline>''],
      open_fault = (\<lambda>name. Some ErrPermission), create_fault = (\<lambda>name. None),
      write_fault = (\<lambda>name. None)\<rparr>
   = (Some ErrPermission,
      \<lparr>files = [''scrobbles.csv'' \<mapsto> ''Autechre,Bike,Incunabula,240,5\<newline>''],
       open_fault = (\<lambda>name. Some ErrPermission), create_fault = (\<lambda>name. None),
       write_fault = (\<lambda>name. None)\<rparr>)"
  by (intro conjI; rule CSVSink_Scrobble_error_leaves_file) simp_all

section \<open>The CSV sink: reading\<close>

lemma GetScrobbles_loop_reaches_malformed:
  assumes "dec bad = Inl err"
    and "\<forall>l \<in> set pre. \<exists>r. dec l = Inr r \<and> Timestamp r \<le> tto"
    and "limit \<le> 0 \<or> int (length acc) + int (in_window_count dec tfrom pre) \<le> limit"
  shows "GetScrobbles_loop dec limit tfrom tto (pre @ bad # rest) acc = Inl err"
  using assms
proof (induction pre arbitrary: acc)
  case Nil
  then show ?case by simp
next
  case (Cons l pre)
  from Cons.prems(2) obtain r where r: "dec l = Inr r" "Timestamp r \<le> tto" by auto
  have rest: "\<forall>l \<in> set pre. \<exists>r. dec l = Inr r \<and> Timestamp r \<le> tto"
    using Cons.prems(2) by simp
  show ?case
  proof (cases "Timestamp r < tfrom")
    case True
    have "limit \<le> 0 \<or> int (length acc) + int (in_window_count dec tfrom pre) \<le> limit"
      using Cons.prems(3) r True by (simp add: in_window_count_def)
    from Cons.IH[OF Cons.prems(1) rest this] show ?thesis using r True by simp
  next
    case False
    have c: "limit \<le> 0 \<or> int (length (acc @ [r])) + int (in_window_count dec tfrom pre) \<le> limit"
      using Cons.prems(3) r False by (auto simp add: in_window_count_def)
    have room: "limit \<le> 0 \<or> int (length acc) < limit"
      using Cons.prems(3) r False by (auto simp add: in_window_count_def)
    from Cons.IH[OF Cons.prems(1) rest c] show ?thesis using r False room by auto
  qed
qed

lemma in_window_count_rev: "in_window_count dec tfrom (rev ls) = in_window_count dec tfrom ls"
  by (simp add: in_window_count_def flip: rev_filter)


text \<open>Every record the loop returns lies within the window.\<close>

lemma GetScrobbles_loop_window:
  assumes "GetScrobbles_loop dec limit tfrom tto ls acc = Inr out"
    and "\<forall>r \<in> set acc. tfrom \<le> Timestamp r \<and> Timestamp r \<le> tto"
  shows "\<forall>r \<in> set out. tfrom \<le> Timestamp r \<and> Timestamp r \<le> tto"
  using assms
proof (induction ls arbitrary: acc)
  case Nil
  then show ?case by simp
next
  case (Cons l ls)
  show ?case
  proof (cases "dec l")
    case (Inl err)
    then show ?thesis using Cons.prems(1) by simp
  next
    case (Inr r)
    consider (before) "Timestamp r < tfrom"
      | (after) "\<not> Timestamp r < tfrom" "tto < Timestamp r"
      | (room) "\<not> Timestamp r < tfrom" "\<not> tto < Timestamp r" "limit \<le> 0 \<or> int (length acc) < limit"
      | (full) "\<not> Timestamp r < tfrom" "\<not> tto < Timestamp r" "\<not> (limit \<le> 0 \<or> int (length acc) < limit)"
      by blast
    then show ?thesis
    proof cases
      case before
      then have "GetScrobbles_loop dec limit tfrom tto ls acc = Inr out"
        using Cons.prems(1) Inr by simp
      then show ?thesis using Cons.IH Cons.prems(2) by blast
    next
      case after
      then have "out = acc" using Cons.prems(1) Inr by simp
      then show ?thesis using Cons.prems(2) by simp
    next
      case room
      then have run: "GetScrobbles_loop dec limit tfrom tto ls (acc @ [r]) = Inr out"
        using Cons.prems(1) Inr by simp
      have "\<forall>x \<in> set (acc @ [r]). tfrom \<le> Timestamp x \<and> Timestamp x \<le> tto"
        using Cons.prems(2) room(1,2) by simp
      with run show ?thesis using Cons.IH by blast
    next
      case full
      then have "out = acc" using Cons.prems(1) Inr by simp
      then show ?thesis using Cons.prems(2) by simp
    qed
  qed
qed

lemma CSVSink_GetScrobbles_within_window:
  assumes "CSVSink_GetScrobbles d s limit tfrom tto w = Inr out" and "r \<in> set out"
  shows "tfrom \<le> Timestamp r \<and> Timestamp r \<le> tto"
proof -
  from assms(1) obtain ls where
    "GetScrobbles_loop (ScrobbleFromCSV d) limit tfrom tto ls [] = Inr out"
    by (auto simp: CSVSink_GetScrobbles_def split: sum.splits)
  from GetScrobbles_loop_window[OF this] assms(2) show ?thesis by simp
qed

text \<open>With a positive limit, the loop returns at most \<open>limit\<close> records.\<close>

lemma GetScrobbles_loop_limit:
  assumes "GetScrobbles_loop dec limit tfrom tto ls acc = Inr out"
    and "0 < limit" and "int (length acc) \<le> limit"
  shows "int (length out) \<le> limit"
  using assms
proof (induction ls arbitrary: acc)
  case Nil
  then show ?case by simp
next
  case (Cons l ls)
  show ?case
  proof (cases "dec l")
    case (Inl err)
    then show ?thesis using Cons.prems(1) by simp
  next
    case (Inr r)
    show ?thesis
    proof (cases "Timestamp r < tfrom")
      case True
      then have "GetScrobbles_loop dec limit tfrom tto ls acc = Inr out"
        using Cons.prems(1) Inr by simp
      then show ?thesis using Cons.IH Cons.prems(2,3) by blast
    next
      case False
      show ?thesis
      proof (cases "\<not> tto < Timestamp r \<and> int (length acc) < limit")
        case True
        then have run: "GetScrobbles_loop dec limit tfrom tto ls (acc @ [r]) = Inr out"
          using Cons.prems(1) Inr False by simp
        have "int (length (acc @ [r])) \<le> limit" using True by simp
        with run show ?thesis using Cons.IH Cons.prems(2) by blast
      next
        case stop: False
        then have "out = acc" using Cons.prems(1,2) Inr False by (simp split: if_splits)
        then show ?thesis using Cons.prems(3) by simp
      qed
    qed
  qed
qed

lemma CSVSink_GetScrobbles_at_most_limit:
  assumes "CSVSink_GetScrobbles d s limit tfrom tto w = Inr out" and "0 < limit"
  shows "int (length out) \<le> limit"
proof -
  from assms(1) obtain ls where
    "GetScrobbles_loop (ScrobbleFromCSV d) limit tfrom tto ls [] = Inr out"
    by (auto simp: CSVSink_GetScrobbles_def split: sum.splits)
  from GetScrobbles_loop_limit[OF this assms(2)] assms(2) show ?thesis by simp
qed

text \<open>
  C1. The claim is that \<open>CSVSink.GetScrobbles\<close> returns exactly the stored records with
  a timestamp within \<open>[from, to]\<close>, most recent first. The loop runs from the newest
  line and leaves at the first record after \<open>to\<close>, so the older records, those within
  the window too, are never reached. Here the file holds a record played at
  1700000000 seconds after the epoch and a newer one played an hour later; the window
  from the epoch to half an hour after the first gives no record at all, where the
  claim gives the first record.
\<close>

theorem CSVSink_GetScrobbles_drops_window_records:
  "CSVSink_GetScrobbles
     (example_deps (Inl ErrCSVParse) []
        [(''first record'', played_at 1700000000000000000),
         (''second record'', played_at 1700003600000000000)])
     history 0 0 1700001800000000000
     (healthy [''scrobbles.csv'' \<mapsto> ''first record\<newline>second record\<newline>''])
   = Inr []"
  by (simp add: CSVSink_GetScrobbles_def os_Open_def dropCR_def)

text \<open>
  C4, as amended. A malformed line is a hard failure whenever the scan reaches it:
  when every line after it in the file decodes to a record not after \<open>to\<close> and, for a
  positive limit, at most \<open>limit\<close> of these records are not before \<open>from\<close>,
  \<open>CSVSink.GetScrobbles\<close> returns the decoding error and no records. Lines before it in
  the file do not matter.
\<close>

theorem CSVSink_GetScrobbles_malformed_line_reached:
  assumes "os_Open w (Filename s) = Inr content"
    and "scan_lines d content = Inr (older @ bad # newer)"
    and "ScrobbleFromCSV d bad = Inl err"
    and "\<forall>l \<in> set newer. \<exists>r. ScrobbleFromCSV d l = Inr r \<and> Timestamp r \<le> tto"
    and "limit \<le> 0 \<or> int (in_window_count (ScrobbleFromCSV d) tfrom newer) \<le> limit"
  shows "CSVSink_GetScrobbles d s limit tfrom tto w = Inl err"
proof -
  have "GetScrobbles_loop (ScrobbleFromCSV d) limit tfrom tto (rev newer @ bad # rev older) [] = Inl err"
    using assms(3,4,5)
    by (intro GetScrobbles_loop_reaches_malformed) (simp_all add: in_window_count_rev)
  then show ?thesis using assms(1,2) by (simp add: CSVSink_GetScrobbles_def)
qed

theorem CSVSink_GetScrobbles_malformed_line_reached_witness:
  "CSVSink_GetScrobbles
     (example_deps (Inl ErrCSVParse) []
        [(''first record'', played_at 5), (''second record'', played_at 10)])
     history 1 0 20
     (healthy [''scrobbles.csv'' \<mapsto> ''first record\<newline>garbage\<newline>second record\<newline>''])
   = Inl ErrDecode"
  by (rule CSVSink_GetScrobbles_malformed_line_reached
        [where content = "''first record\<newline>garbage\<newline>second record\<newline>''"
           and older = "[''first record'']" and bad = "''garbage''" and newer = "[''second record'']"])
     (simp_all add: os_Open_def in_window_count_def dropCR_def)

text \<open>
  The claim as stated fails: the scan stops at the limit, and a malformed line that
  lies further back in the file is never decoded. With a limit of one, the newest
  record is returned and the call succeeds although the first line is malformed.
\<close>

theorem CSVSink_GetScrobbles_limit_hides_malformed_line:
  "CSVSink_GetScrobbles
     (example_deps (Inl ErrCSVParse) []
        [(''first record'', played_at 5), (''second record'', played_at 10)])
     history 1 0 20
     (healthy [''scrobbles.csv'' \<mapsto> ''garbage\<newline>first record\<newline>second record\<newline>''])
   = Inr [played_at 10]"
  by (simp add: CSVSink_GetScrobbles_def os_Open_def dropCR_def)

section \<open>The CSV sink: writing, then reading\<close>




section \<open>The last.fm sink: requests and pages\<close>



lemma add_tracks_limit:
  "add_tracks limit tracks scrobbles = (out, stop) \<Longrightarrow> 0 < limit \<Longrightarrow> int (length scrobbles) \<le> limit
     \<Longrightarrow> int (length out) \<le> limit"
proof (induction tracks arbitrary: scrobbles)
  case Nil
  then show ?case by simp
next
  case (Cons track tracks)
  show ?case
  proof (cases "int (length scrobbles) < limit")
    case True
    then have "add_tracks limit tracks (scrobbles @ [track_to_Scrobble track]) = (out, stop)"
      using Cons.prems(1) by simp
    moreover have "int (length (scrobbles @ [track_to_Scrobble track])) \<le> limit"
      using True by simp
    ultimately show ?thesis using Cons.IH Cons.prems(2) by blast
  next
    case False
    then show ?thesis using Cons.prems by simp
  qed
qed

lemma GetScrobbles_pages_returns:
  assumes bound: "\<forall>p page. UserGetRecentTracks c p = Inr page \<longrightarrow> TotalPages page \<le> N"
    and inv: "0 < limit \<longrightarrow> int (length scrobbles) \<le> limit"
  shows "\<exists>r. GetScrobbles_pages c s limit tfrom tto currentPage totalPages scrobbles = Some r \<and>
           (\<forall>out. r = Inr out \<longrightarrow> 0 < limit \<longrightarrow> int (length out) \<le> limit)"
  using inv
proof (induction "nat (N - currentPage)" arbitrary: currentPage totalPages scrobbles rule: less_induct)
  case less
  show ?case
  proof (cases "UserGetRecentTracks c (recent_params s limit tfrom tto currentPage)")
    case (Inl err)
    then show ?thesis by (subst GetScrobbles_pages.simps) simp
  next
    case (Inr page)
    obtain out stop where at: "add_tracks limit (Tracks page) scrobbles = (out, stop)"
      by (cases "add_tracks limit (Tracks page) scrobbles")
    have len: "0 < limit \<longrightarrow> int (length out) \<le> limit"
      using add_tracks_limit[OF at] less.prems by blast
    have tp: "TotalPages page \<le> N" using bound Inr by blast
    show ?thesis
    proof (cases "stop \<or> TotalPages page \<le> currentPage")
      case True
      then show ?thesis using Inr at len
        by (subst GetScrobbles_pages.simps) auto
    next
      case False
      then have "nat (N - (currentPage + 1)) < nat (N - currentPage)" using tp by linarith
      from less.hyps[OF this len, of "TotalPages page"]
      show ?thesis using Inr at False
        by (subst GetScrobbles_pages.simps) auto
    qed
  qed
qed

text \<open>
  Against a remote service whose answers never report more than some number \<open>N\<close> of
  total pages, \<open>LastFmSink.GetScrobbles\<close> returns, and a positive limit bounds the length
  of what it returns.
\<close>

lemma LastFmSink_GetScrobbles_bounded_totals:
  assumes "\<forall>p page. UserGetRecentTracks c p = Inr page \<longrightarrow> TotalPages page \<le> N"
  shows "\<exists>r. LastFmSink_GetScrobbles c s limit tfrom tto = Some r \<and>
           (\<forall>out. r = Inr out \<longrightarrow> 0 < limit \<longrightarrow> int (length out) \<le> limit)"
  unfolding LastFmSink_GetScrobbles_def
  using assms by (intro GetScrobbles_pages_returns) simp_all





text \<open>
  When the reported totals are not bounded the call need not return: the endless
  service is asked forever.
\<close>

lemma GetScrobbles_pages_endless:
  assumes "GetScrobbles_pages c s limit tfrom tto currentPage totalPages scrobbles = Some r"
  shows "UserGetRecentTracks c \<noteq> endless_service"
  using assms
proof (rule GetScrobbles_pages.raw_induct[rotated 1,
      where P = "\<lambda>c s limit tfrom tto currentPage totalPages scrobbles r.
        UserGetRecentTracks c \<noteq> endless_service"], goal_cases)
  case (1 pages c s limit tfrom tto currentPage totalPages scrobbles r)
  show ?case
  proof
    assume e: "UserGetRecentTracks c = endless_service"
    have "UserGetRecentTracks c (recent_params s limit tfrom tto currentPage) =
        Inr \<lparr>TotalPages = currentPage + 1, Tracks = []\<rparr>"
      by (simp add: e endless_service_def recent_params_def)
    with 1(2) have "pages c s limit tfrom tto (currentPage + 1) (currentPage + 1) scrobbles = Some r"
      by (simp add: Let_def split: if_splits)
    from 1(1)[OF this] e show False by simp
  qed
qed

lemma LastFmSink_GetScrobbles_endless:
  "UserGetRecentTracks c = endless_service \<Longrightarrow> LastFmSink_GetScrobbles c s limit tfrom tto = None"
  unfolding LastFmSink_GetScrobbles_def
  using GetScrobbles_pages_endless[of c s limit tfrom tto 1 1 "[]"]
  by (cases "GetScrobbles_pages c s limit tfrom tto 1 1 []") auto


section \<open>The regex rules\<close>

lemma ParseRegexes_loop_eq:
  "ParseRegexes_loop compile rs parsed =
     parsed @ map (parsed_rule compile) (filter (compiles compile) rs)"
proof (induction rs arbitrary: parsed)
  case Nil
  then show ?case by simp
next
  case (Cons r rs)
  show ?case
  proof (cases "compile (rr_Match r)")
    case (Inl err)
    then show ?thesis using Cons.IH by (simp add: compiles_def)
  next
    case (Inr match)
    then show ?thesis using Cons.IH by (simp add: compiles_def parsed_rule_def)
  qed
qed

text \<open>
  C6. \<open>Config.ParseRegexes\<close> returns exactly the rules whose pattern compiles, in the
  configured order, each with its replacement and its flags; a rule whose pattern does
  not compile is skipped, and the rules after it are parsed as if it were not there.
\<close>

theorem ParseRegexes_keeps_compiling_rules:
  "ParseRegexes compile c = compiled_rules compile c \<and>
   length (ParseRegexes compile c) \<le> length (Regexes c) \<and>
   (\<not> compiles compile r \<longrightarrow>
      ParseRegexes compile (c\<lparr>Regexes := rs @ r # rs'\<rparr>) =
      ParseRegexes compile (c\<lparr>Regexes := rs @ rs'\<rparr>))"
  by (simp add: ParseRegexes_def compiled_rules_def ParseRegexes_loop_eq)

theorem ParseRegexes_keeps_compiling_rules_witness:
  "ParseRegexes (\<lambda>pat. if pat = ''('' then Inl ErrRegexp else Inr pat)
     \<lparr>PollRate = 2, MinPlaybackDuration = 240, MinPlaybackPercent = 50, NotifyOnScrobble = False,
      NotifyOnError = True, Blacklist = [],
      Regexes = [] @
        \<lparr>rr_Match = ''('', rr_Replace = ''x'', rr_Artist = True, rr_Track = False, rr_Album = False\<rparr> #
        [\<lparr>rr_Match = '' - Remastered'', rr_Replace = [], rr_Artist = False, rr_Track = True,
          rr_Album = True\<rparr>]\<rparr>
   = [\<lparr>prr_Match = '' - Remastered'', prr_Replace = [], prr_Artist = False, prr_Track = True,
       prr_Album = True\<rparr>]"
  using ParseRegexes_keeps_compiling_rules
    [of "\<lambda>pat. if pat = ''('' then Inl ErrRegexp else Inr pat"
        "\<lparr>PollRate = 2, MinPlaybackDuration = 240, MinPlaybackPercent = 50, NotifyOnScrobble = False,
          NotifyOnError = True, Blacklist = [], Regexes = []\<rparr>"
        "\<lparr>rr_Match = ''('', rr_Replace = ''x'', rr_Artist = True, rr_Track = False, rr_Album = False\<rparr>"
        "[]"
        "[\<lparr>rr_Match = '' - Remastered'', rr_Replace = [], rr_Artist = False, rr_Track = True,
          rr_Album = True\<rparr>]"]
  by (simp add: compiles_def ParseRegexes_def)


section \<open>The playback tracker: one scrobble per session\<close>

lemma advance_keeps [simp]:
  "sess_identity (advance sess snap tk) = sess_identity sess"
  "scrobbled (advance sess snap tk) = scrobbled sess"
  "candidate (advance sess snap tk) = candidate sess"
  "play_start (advance sess snap tk) = play_start sess"
  by (simp_all add: advance_def)

lemma tracker_tick_same_eq:
  assumes "reported tk = Some snap" and "snap_identity snap = sess_identity sess"
  shows "tracker_tick pol (Some sess) tk =
     (if \<not> scrobbled sess \<and> threshold pol (snap_total snap) \<le> accumulated (advance sess snap tk)
      then ([EvScrobble (candidate sess) (play_start sess) (accumulated (advance sess snap tk))],
            Some ((advance sess snap tk)\<lparr>scrobbled := True\<rparr>))
      else ([], Some (advance sess snap tk)))"
  using assms by (simp add: tracker_tick_def Let_def)

lemma tracker_tick_same:
  assumes "reported tk = Some snap" and "snap_identity snap = sess_identity sess"
  shows "\<exists>sess'. snd (tracker_tick pol (Some sess) tk) = Some sess' \<and>
           sess_identity sess' = sess_identity sess \<and>
           (scrobbled sess \<longrightarrow> scrobbled sess') \<and>
           scrobble_count (fst (tracker_tick pol (Some sess) tk)) =
             (if scrobbled sess' \<and> \<not> scrobbled sess then 1 else 0)"
proof (cases "\<not> scrobbled sess \<and> threshold pol (snap_total snap) \<le> accumulated (advance sess snap tk)")
  case True
  then show ?thesis
    unfolding tracker_tick_same_eq[OF assms] by (simp add: scrobble_count_def)
next
  case False
  then show ?thesis
    unfolding tracker_tick_same_eq[OF assms] by (simp add: scrobble_count_def)
qed

lemma tracker_run_Cons:
  "tracker_run pol st (tk # tks) =
     (fst (tracker_tick pol st tk) @ fst (tracker_run pol (snd (tracker_tick pol st tk)) tks),
      snd (tracker_run pol (snd (tracker_tick pol st tk)) tks))"
  by (simp add: case_prod_beta)

lemma scrobble_count_append:
  "scrobble_count (evs @ evs') = scrobble_count evs + scrobble_count evs'"
  by (simp add: scrobble_count_def)

lemma tracker_run_same:
  assumes "same_session sess tks"
  shows "\<exists>sess'. snd (tracker_run pol (Some sess) tks) = Some sess' \<and>
           sess_identity sess' = sess_identity sess \<and>
           (scrobbled sess \<longrightarrow> scrobbled sess') \<and>
           scrobble_count (fst (tracker_run pol (Some sess) tks)) =
             (if scrobbled sess' \<and> \<not> scrobbled sess then 1 else 0)"
  using assms
proof (induction tks arbitrary: sess)
  case Nil
  then show ?case by (simp add: scrobble_count_def)
next
  case (Cons tk tks)
  from Cons.prems obtain snap where snap: "reported tk = Some snap"
      "snap_identity snap = sess_identity sess"
    by (auto simp: same_session_def)
  from tracker_tick_same[OF snap, of pol] obtain mid where mid:
    "snd (tracker_tick pol (Some sess) tk) = Some mid" "sess_identity mid = sess_identity sess"
    "scrobbled sess \<longrightarrow> scrobbled mid"
    "scrobble_count (fst (tracker_tick pol (Some sess) tk)) =
       (if scrobbled mid \<and> \<not> scrobbled sess then 1 else 0)"
    by blast
  have "same_session mid tks" using Cons.prems by (simp add: same_session_def mid(2))
  from Cons.IH[OF this] obtain fin where fin:
    "snd (tracker_run pol (Some mid) tks) = Some fin" "sess_identity fin = sess_identity mid"
    "scrobbled mid \<longrightarrow> scrobbled fin"
    "scrobble_count (fst (tracker_run pol (Some mid) tks)) =
       (if scrobbled fin \<and> \<not> scrobbled mid then 1 else 0)"
    by blast
  have st: "snd (tracker_run pol (Some sess) (tk # tks)) = Some fin"
    by (simp only: tracker_run_Cons snd_conv mid(1) fin(1))
  have cnt: "scrobble_count (fst (tracker_run pol (Some sess) (tk # tks))) =
      (if scrobbled mid \<and> \<not> scrobbled sess then 1 else 0) +
      (if scrobbled fin \<and> \<not> scrobbled mid then 1 else 0)"
    by (simp only: tracker_run_Cons fst_conv scrobble_count_append mid(1) mid(4) fin(4))
  have "scrobble_count (fst (tracker_run pol (Some sess) (tk # tks))) =
      (if scrobbled fin \<and> \<not> scrobbled sess then 1 else 0)"
    using cnt mid(3) fin(3) by (cases "scrobbled sess"; cases "scrobbled mid"; cases "scrobbled fin") simp_all
  moreover have "sess_identity fin = sess_identity sess" using fin(2) mid(2) by simp
  moreover have "scrobbled sess \<longrightarrow> scrobbled fin" using mid(3) fin(3) by blast
  ultimately show ?case using st by blast
qed


text \<open>
  C8. Within one session, that is, over ticks that all report the identity of the
  session, at most one scrobble is emitted, and none when the session is already
  scrobbled. The tick on which the accumulated play time reaches the threshold emits
  exactly one scrobble, carrying the play start and the accumulated time, and the
  ticks of the same session after it emit no further scrobble.
\<close>

theorem tracker_scrobbles_once_per_session:
  assumes "same_session sess tks"
  shows "scrobble_count (fst (tracker_run pol (Some sess) tks)) \<le> 1 \<and>
         (scrobbled sess \<longrightarrow> scrobble_count (fst (tracker_run pol (Some sess) tks)) = 0) \<and>
         (\<forall>tk snap.
            reported tk = Some snap \<and> snap_identity snap = sess_identity sess \<and>
            \<not> scrobbled sess \<and>
            threshold pol (snap_total snap) \<le> accumulated (advance sess snap tk) \<longrightarrow>
            fst (tracker_tick pol (Some sess) tk) =
              [EvScrobble (candidate sess) (play_start sess) (accumulated (advance sess snap tk))] \<and>
            scrobble_count (fst (tracker_run pol (snd (tracker_tick pol (Some sess) tk)) tks)) = 0)"
proof (intro conjI allI impI)
  from tracker_run_same[OF assms, of pol] obtain fin :: PlaybackSession where fin:
    "scrobble_count (fst (tracker_run pol (Some sess) tks)) =
       (if scrobbled fin \<and> \<not> scrobbled sess then 1 else 0)"
    by blast
  show "scrobble_count (fst (tracker_run pol (Some sess) tks)) \<le> 1"
    by (simp add: fin)
  show "scrobble_count (fst (tracker_run pol (Some sess) tks)) = 0" if "scrobbled sess"
    using that by (simp add: fin)
next
  fix tk snap
  assume h: "reported tk = Some snap \<and> snap_identity snap = sess_identity sess \<and>
            \<not> scrobbled sess \<and>
            threshold pol (snap_total snap) \<le> accumulated (advance sess snap tk)"
  then have eq: "tracker_tick pol (Some sess) tk =
      ([EvScrobble (candidate sess) (play_start sess) (accumulated (advance sess snap tk))],
       Some ((advance sess snap tk)\<lparr>scrobbled := True\<rparr>))"
    by (simp add: tracker_tick_same_eq)
  show "fst (tracker_tick pol (Some sess) tk) =
      [EvScrobble (candidate sess) (play_start sess) (accumulated (advance sess snap tk))]"
    by (simp add: eq)
  let ?next = "(advance sess snap tk)\<lparr>scrobbled := True\<rparr>"
  have "same_session ?next tks" using assms by (simp add: same_session_def)
  from tracker_run_same[OF this, of pol] obtain fin :: PlaybackSession where
    "scrobble_count (fst (tracker_run pol (Some ?next) tks)) =
       (if scrobbled fin \<and> \<not> scrobbled ?next then 1 else 0)"
    by blast
  then show "scrobble_count (fst (tracker_run pol (snd (tracker_tick pol (Some sess) tk)) tks)) = 0"
    by (simp add: eq)
qed

theorem tracker_scrobbles_once_per_session_witness:
  "scrobble_count (fst (tracker_run spec_policy
      (Some (imagine_session 0))
      [playing_tick 100, playing_tick 200, playing_tick 300, playing_tick 400])) = 1 \<and>
   threshold spec_policy (Some 400) = 200 \<and>
   fst (tracker_tick spec_policy
      (Some (imagine_session 100)) (playing_tick 200))
     = [EvScrobble imagine 1000 200] \<and>
   scrobble_count (fst (tracker_run spec_policy
      (snd (tracker_tick spec_policy
         (Some (imagine_session 100)) (playing_tick 200)))
      [playing_tick 300, playing_tick 400])) = 0"
proof -
  have same: "same_session
      (imagine_session 100) [playing_tick 300, playing_tick 400]"
    by (simp add: same_session_def)
  have cross: "reported (playing_tick 200) =
      Some \<lparr>snap_identity = imagine, snap_total = Some 400, snap_position = 200, snap_playing = True\<rparr> \<and>
    snap_identity \<lparr>snap_identity = imagine, snap_total = Some 400, snap_position = 200, snap_playing = True\<rparr>
      = sess_identity (imagine_session 100) \<and>
    \<not> scrobbled (imagine_session 100) \<and>
    threshold spec_policy (snap_total \<lparr>snap_identity = imagine, snap_total = Some 400,
        snap_position = 200, snap_playing = True\<rparr>)
      \<le> accumulated (advance (imagine_session 100)
        \<lparr>snap_identity = imagine, snap_total = Some 400, snap_position = 200, snap_playing = True\<rparr>
        (playing_tick 200))"
    by (simp add: threshold_def advance_def)
  have count: "scrobble_count (fst (tracker_run spec_policy
      (Some (imagine_session 0))
      [playing_tick 100, playing_tick 200, playing_tick 300, playing_tick 400])) = 1"
    by (simp add: tracker_tick_def advance_def threshold_def scrobble_count_def)
  have thr: "threshold spec_policy (Some 400) = 200" by (simp add: threshold_def)
  from tracker_scrobbles_once_per_session[OF same, of spec_policy] cross
  have step: "fst (tracker_tick spec_policy
      (Some (imagine_session 100)) (playing_tick 200))
     = [EvScrobble (candidate (imagine_session 100))
          (play_start (imagine_session 100))
          (accumulated (advance (imagine_session 100)
            \<lparr>snap_identity = imagine, snap_total = Some 400, snap_position = 200, snap_playing = True\<rparr>
            (playing_tick 200)))] \<and>
    scrobble_count (fst (tracker_run spec_policy
      (snd (tracker_tick spec_policy
         (Some (imagine_session 100)) (playing_tick 200)))
      [playing_tick 300, playing_tick 400])) = 0"
    by blast
  have acc: "accumulated (advance (imagine_session 100)
            \<lparr>snap_identity = imagine, snap_total = Some 400, snap_position = 200, snap_playing = True\<rparr>
            (playing_tick 200)) = 200"
    by (simp add: advance_def)
  from step count thr show ?thesis unfolding acc by simp
qed

end
